theory Spec2Isabelle
  imports Main "HOL-Library.Word"
begin

section \<open>The SizeCeph\_Actual erasure-code plugin: data model\<close>

text \<open>
  The development embeds \<^verbatim>\<open>ErasureCodeSizeCephActual.cc\<close>. Sizes and lengths are
  \<^verbatim>\<open>unsigned int\<close> in the source and are 32-bit words here, so that every addition,
  subtraction and multiplication wraps as the C++ does. A buffer is a list of bytes.
\<close>

type_synonym u32 = "32 word"
type_synonym byte = "8 word"
type_synonym bufferlist = "byte list"

text \<open>The constants of \<^verbatim>\<open>ErasureCodeSizeCephActual.h\<close>.\<close>

definition SIZECEPH_ACTUAL_K :: nat where "SIZECEPH_ACTUAL_K = 4"
definition SIZECEPH_ACTUAL_M :: nat where "SIZECEPH_ACTUAL_M = 5"
definition SIZECEPH_ACTUAL_N :: nat where "SIZECEPH_ACTUAL_N = 9"
definition SIZECEPH_ACTUAL_MIN_OSDS :: nat where "SIZECEPH_ACTUAL_MIN_OSDS = 6"
definition SIZECEPH_ACTUAL_MAX_FAILURES :: nat where "SIZECEPH_ACTUAL_MAX_FAILURES = 3"
definition SIZECEPH_ACTUAL_ALIGNMENT :: nat where "SIZECEPH_ACTUAL_ALIGNMENT = 4"

subsection \<open>Alignment calculator\<close>

text \<open>
  Modelled from the spec: \<^verbatim>\<open>round_up_to\<close> of \<^verbatim>\<open>include/intarith.h\<close>, which is not among
  the sources. The spec has it pad its first argument up to the next multiple of the
  second, leaving an aligned value as it is; both arguments and the result are
  \<^verbatim>\<open>unsigned int\<close> at the call sites, so the padding is computed in 32 bits.
\<close>

definition round_up_to :: "u32 \<Rightarrow> u32 \<Rightarrow> u32" where
  "round_up_to n d = (if n mod d \<noteq> 0 then n + d - n mod d else n)"

text \<open>\<^verbatim>\<open>get_chunk_size\<close>, lines 148--172.\<close>

definition get_chunk_size :: "u32 \<Rightarrow> u32" where
  "get_chunk_size stripe_width =
     (let alignment = of_nat SIZECEPH_ACTUAL_ALIGNMENT;
          k_alignment = of_nat SIZECEPH_ACTUAL_K * alignment;
          padded_length = round_up_to stripe_width k_alignment;
          chunk_size = padded_length div of_nat SIZECEPH_ACTUAL_K
      in chunk_size)"

text \<open>\<^verbatim>\<open>get_alignment\<close>, line 305.\<close>

definition get_alignment :: u32 where
  "get_alignment = of_nat SIZECEPH_ACTUAL_ALIGNMENT"

subsection \<open>Shard identifiers, shard sets and shard maps\<close>

text \<open>
  Modelled from the spec: \<^verbatim>\<open>shard_id_t\<close>, \<^verbatim>\<open>shard_id_set\<close> and \<^verbatim>\<open>shard_id_map\<close> are
  declared in \<^verbatim>\<open>osd/osd_types.h\<close>, which is not among the sources. The spec has a shard
  identifier be an integer and a shard set a set of unique identifiers; the source
  compares \<^verbatim>\<open>shard.id\<close> with 0, so the identifier is signed. A shard set is kept here as
  the list of its elements in ascending order, which is the order in which the source's
  range-for loops and iterators visit it; \<^verbatim>\<open>insert\<close> keeps the list ascending and free
  of duplicates and \<^verbatim>\<open>size\<close> is its length.

  A shard map that the source only reads (the \<^verbatim>\<open>chunks\<close> argument) is the list of its
  entries in iteration order, so that \<^verbatim>\<open>chunks.begin()\<close> is the head of the list. A shard
  map that the source writes by \<^verbatim>\<open>(*decoded)[id] = ...\<close> and reads by \<^verbatim>\<open>find\<close> is a
  partial function.
\<close>

type_synonym shard_id = int
type_synonym shard_id_set = "shard_id list"
type_synonym chunk_map = "(shard_id \<times> bufferlist) list"
type_synonym shard_buffers = "shard_id \<rightharpoonup> bufferlist"

fun shard_insert :: "shard_id \<Rightarrow> shard_id_set \<Rightarrow> shard_id_set" where
  "shard_insert x [] = [x]"
| "shard_insert x (y # ys) =
     (if x < y then x # y # ys
      else if x = y then y # ys
      else y # shard_insert x ys)"

text \<open>
  The source tests an identifier against a bound after a cast,
  \<^verbatim>\<open>(unsigned int)shard_id.id < SIZECEPH_ACTUAL_N\<close>: the cast sends a negative identifier
  to a value above every bound used, so the test holds exactly for the identifiers from
  0 up to the bound. \<^verbatim>\<open>encode\<close> writes the same test as
  \<^verbatim>\<open>shard.id < 0 || shard.id >= (int)SIZECEPH_ACTUAL_N\<close>.
\<close>

definition id_below :: "shard_id \<Rightarrow> nat \<Rightarrow> bool" where
  "id_below shard_id bound \<longleftrightarrow> 0 \<le> shard_id \<and> shard_id < int bound"

text \<open>\<^verbatim>\<open>bufferlist::length()\<close> is an \<^verbatim>\<open>unsigned int\<close>.\<close>

definition buf_length :: "bufferlist \<Rightarrow> u32" where
  "buf_length bl = of_nat (length bl)"

text \<open>
  Modelled from the spec: \<^verbatim>\<open>bufferlist::substr_of\<close> of \<^verbatim>\<open>include/buffer.h\<close>, which is
  not among the sources. The spec has decode return "the slice" of the recovered buffer at
  an offset and of a length; a slice that does not lie inside the buffer does not exist,
  and the call does not return one (\<open>None\<close>).
\<close>

definition substr_of :: "bufferlist \<Rightarrow> u32 \<Rightarrow> u32 \<Rightarrow> bufferlist option" where
  "substr_of other off len =
     (if length other < unat off + unat len then None
      else Some (take (unat len) (drop (unat off) other)))"

subsection \<open>Results\<close>

text \<open>
  An operation returns 0 or a negated error number; a slice outside the recovered buffer
  and a failed \<^verbatim>\<open>ceph_assert\<close> leave it without a return value.
\<close>

datatype errno = EIO | ENOENT | EINVAL | ENOTSUP

datatype outcome = Success | Failure errno | Buffer_range_error | Assert_failed

subsection \<open>The codec library\<close>

text \<open>
  The three functions of the SizeCeph\_Actual library are external; they are fields of a
  record, together with whether \<^verbatim>\<open>dlopen\<close> and \<^verbatim>\<open>dlsym\<close> find them. The library
  writes its output through pointers into buffers that the plugin has allocated, so the
  length of an output buffer is the plugin's, and the bytes are the library's: an output
  is given as the byte the library leaves at each offset.
  \<^item> \<^verbatim>\<open>size_split(pp_dst, p_src, len)\<close>: the byte at each offset of each of the 9 outputs;
  \<^item> \<^verbatim>\<open>size_restore(p_dst, pp_src, len)\<close>: its status and the byte at each offset;
  \<^item> \<^verbatim>\<open>size_can_get_restore_fn(pp_src)\<close>: an \<^verbatim>\<open>int\<close> read as a truth value.
  A null pointer in \<^verbatim>\<open>pp_src\<close> is \<open>None\<close>.
\<close>

type_synonym codec_input = "bufferlist option list"

record codec =
  dl_available :: bool
  size_split :: "bufferlist \<Rightarrow> u32 \<Rightarrow> nat \<Rightarrow> nat \<Rightarrow> byte"
  size_restore :: "codec_input \<Rightarrow> u32 \<Rightarrow> int \<times> (nat \<Rightarrow> byte)"
  size_can_get_restore_fn :: "codec_input \<Rightarrow> int"

datatype codec_call =
    Call_split bufferlist u32
  | Call_can_restore codec_input
  | Call_restore codec_input u32

record lib_state =
  library_loaded :: bool
  library_ref_count :: int

text \<open>\<^verbatim>\<open>load_sizeceph_actual_library\<close>, lines 238--279.\<close>

definition load_sizeceph_actual_library :: "codec \<Rightarrow> lib_state \<Rightarrow> bool \<times> lib_state" where
  "load_sizeceph_actual_library env st =
     (if library_loaded st
      then (True, st\<lparr>library_ref_count := library_ref_count st + 1\<rparr>)
      else if \<not> dl_available env then (False, st)
      else (True, st\<lparr>library_loaded := True, library_ref_count := 1\<rparr>))"

subsection \<open>Availability gate and minimum read set\<close>

text \<open>\<^verbatim>\<open>validate_failure_pattern\<close>, lines 213--221, and \<^verbatim>\<open>is_safe_to_decode\<close>, lines 223--236.\<close>

definition validate_failure_pattern :: "shard_id_set \<Rightarrow> bool" where
  "validate_failure_pattern available =
     (if SIZECEPH_ACTUAL_MIN_OSDS \<le> length available then True else False)"

definition is_safe_to_decode :: "shard_id_set \<Rightarrow> shard_id_set \<Rightarrow> bool" where
  "is_safe_to_decode available want_to_read =
     (if length available < SIZECEPH_ACTUAL_MIN_OSDS then False
      else if length available < SIZECEPH_ACTUAL_K then False
      else True)"

text \<open>
  \<^verbatim>\<open>minimum_to_decode\<close>, lines 181--210. The loop runs an index and an iterator over
  \<^verbatim>\<open>available\<close> together and inserts what the iterator points at. The sub-chunk map is
  only cleared and is left out.
\<close>

fun minimum_loop :: "nat \<Rightarrow> shard_id list \<Rightarrow> shard_id_set \<Rightarrow> shard_id_set" where
  "minimum_loop i [] minimum_set = minimum_set"
| "minimum_loop i (x # it) minimum_set =
     (if i < SIZECEPH_ACTUAL_MIN_OSDS
      then minimum_loop (Suc i) it (shard_insert x minimum_set)
      else minimum_set)"

definition minimum_to_decode ::
  "shard_id_set \<Rightarrow> shard_id_set \<Rightarrow> shard_id_set \<Rightarrow> outcome \<times> shard_id_set" where
  "minimum_to_decode want_to_read available minimum_set =
     (if length available < SIZECEPH_ACTUAL_MIN_OSDS then (Failure EIO, minimum_set)
      else (Success, minimum_loop 0 available []))"

subsection \<open>Encode\<close>

record encode_result =
  e_ret :: outcome
  e_encoded :: shard_buffers
  e_calls :: "codec_call list"
  e_lib :: lib_state

text \<open>
  The three loops of \<^verbatim>\<open>encode\<close> over \<^verbatim>\<open>want_to_encode\<close>: the empty-input loop of lines
  371--373 stores an empty buffer for every requested shard; the allocation loop of lines
  397--401 appends a fresh buffer of \<^verbatim>\<open>chunk_size\<close> bytes to the entry of every requested
  shard; the loop of lines 404--412 zeroes the first \<^verbatim>\<open>chunk_size\<close> bytes of every entry
  and asserts that the entry still starts at the pointer handed to the library, which holds
  when the entry consists of the fresh buffer alone.
\<close>

fun store_empty :: "shard_id list \<Rightarrow> shard_buffers \<Rightarrow> shard_buffers" where
  "store_empty [] encoded = encoded"
| "store_empty (shard # rest) encoded = store_empty rest (encoded(shard \<mapsto> []))"

definition entry_of :: "shard_buffers \<Rightarrow> shard_id \<Rightarrow> bufferlist" where
  "entry_of m shard = (case m shard of None \<Rightarrow> [] | Some bl \<Rightarrow> bl)"

fun pointers_consistent :: "shard_id list \<Rightarrow> shard_buffers \<Rightarrow> bool" where
  "pointers_consistent [] encoded = True"
| "pointers_consistent (shard # rest) encoded =
     (entry_of encoded shard = [] \<and> pointers_consistent rest encoded)"

fun store_split :: "(nat \<Rightarrow> nat \<Rightarrow> byte) \<Rightarrow> u32 \<Rightarrow> shard_id list \<Rightarrow> shard_buffers \<Rightarrow> shard_buffers" where
  "store_split out chunk_size [] encoded = encoded"
| "store_split out chunk_size (shard # rest) encoded =
     store_split out chunk_size rest
       (encoded(shard \<mapsto> map (out (nat shard)) [0..<unat chunk_size]))"

text \<open>\<^verbatim>\<open>encode\<close>, lines 339--422.\<close>

definition encode ::
  "codec \<Rightarrow> lib_state \<Rightarrow> shard_id_set \<Rightarrow> bufferlist \<Rightarrow> shard_buffers \<Rightarrow> encode_result" where
  "encode env lib0 want_to_encode inp encoded =
     (case load_sizeceph_actual_library env lib0 of
        (False, lib1) \<Rightarrow>
          \<lparr>e_ret = Failure ENOENT, e_encoded = encoded, e_calls = [], e_lib = lib1\<rparr>
      | (True, lib1) \<Rightarrow>
          if length want_to_encode \<noteq> SIZECEPH_ACTUAL_N
          then \<lparr>e_ret = Failure EINVAL, e_encoded = encoded, e_calls = [], e_lib = lib1\<rparr>
          else if list_ex (\<lambda>shard. shard < 0 \<or> int SIZECEPH_ACTUAL_N \<le> shard) want_to_encode
          then \<lparr>e_ret = Failure EINVAL, e_encoded = encoded, e_calls = [], e_lib = lib1\<rparr>
          else if buf_length inp = 0
          then \<lparr>e_ret = Success, e_encoded = store_empty want_to_encode encoded,
                e_calls = [], e_lib = lib1\<rparr>
          else if buf_length inp mod get_alignment \<noteq> 0
          then \<lparr>e_ret = Failure EINVAL, e_encoded = encoded, e_calls = [], e_lib = lib1\<rparr>
          else
            let input_length = buf_length inp;
                chunk_size = get_chunk_size input_length
            in if \<not> pointers_consistent want_to_encode encoded
               then \<lparr>e_ret = Assert_failed, e_encoded = encoded, e_calls = [], e_lib = lib1\<rparr>
               else \<lparr>e_ret = Success,
                     e_encoded = store_split (size_split env inp input_length) chunk_size
                                   want_to_encode encoded,
                     e_calls = [Call_split inp input_length], e_lib = lib1\<rparr>)"

subsection \<open>Decode\<close>

record decode_result =
  d_ret :: outcome
  d_decoded :: shard_buffers
  d_calls :: "codec_call list"
  d_lib :: lib_state

text \<open>The set of the keys of \<^verbatim>\<open>chunks\<close>, lines 436--439.\<close>

definition available_shards :: "chunk_map \<Rightarrow> shard_id_set" where
  "available_shards chunks = foldl (\<lambda>available chunk. shard_insert (fst chunk) available) [] chunks"

text \<open>
  The chunk size, lines 461--464. The declared size is an \<^verbatim>\<open>int\<close> that is stored into an
  \<^verbatim>\<open>unsigned int\<close> before it is compared with 0.
\<close>

definition effective_chunk_size :: "chunk_map \<Rightarrow> u32 \<Rightarrow> u32" where
  "effective_chunk_size chunks chunk_size =
     (if chunk_size \<le> 0 \<and> chunks \<noteq> [] then buf_length (snd (hd chunks)) else chunk_size)"

text \<open>
  The input array of the library, lines 475--498: 9 null pointers, then, for every chunk
  whose identifier is below 9, the chunk is appended to the copy kept for its slot and the
  slot is set to \<^verbatim>\<open>c_str()\<close> of the copy. \<^verbatim>\<open>c_str()\<close> of an empty buffer list is a null
  pointer, so the slot of an empty copy is \<open>None\<close>, as that of a missing chunk is.
\<close>

definition c_str :: "bufferlist \<Rightarrow> bufferlist option" where
  "c_str bl = (if bl = [] then None else Some bl)"

definition chunk_copy :: "bufferlist option \<Rightarrow> bufferlist" where
  "chunk_copy slot = (case slot of None \<Rightarrow> [] | Some c \<Rightarrow> c)"

fun load_chunks :: "chunk_map \<Rightarrow> codec_input \<Rightarrow> codec_input" where
  "load_chunks [] input_chunks = input_chunks"
| "load_chunks ((shard_id, bl) # rest) input_chunks =
     (if id_below shard_id SIZECEPH_ACTUAL_N
      then load_chunks rest
             (input_chunks[nat shard_id := c_str (chunk_copy (input_chunks ! nat shard_id) @ bl)])
      else load_chunks rest input_chunks)"

definition const_input_chunks :: "chunk_map \<Rightarrow> codec_input" where
  "const_input_chunks chunks = load_chunks chunks (replicate SIZECEPH_ACTUAL_N None)"

text \<open>
  The call of \<^verbatim>\<open>size_restore\<close>, lines 510--514: a buffer of \<^verbatim>\<open>original_data_size\<close> bytes
  that the library fills.
\<close>

definition restore_status :: "codec \<Rightarrow> codec_input \<Rightarrow> u32 \<Rightarrow> int" where
  "restore_status env input original_data_size = fst (size_restore env input original_data_size)"

definition restored_data :: "codec \<Rightarrow> codec_input \<Rightarrow> u32 \<Rightarrow> bufferlist" where
  "restored_data env input original_data_size =
     map (snd (size_restore env input original_data_size)) [0..<unat original_data_size]"

text \<open>The slice of a data chunk, lines 544--551.\<close>

definition data_portion :: "bufferlist \<Rightarrow> u32 \<Rightarrow> shard_id \<Rightarrow> bufferlist option" where
  "data_portion original_data_bl original_data_size shard_id =
     (let original_data_per_chunk = get_chunk_size original_data_size;
          start_offset = of_int shard_id * original_data_per_chunk;
          len = (if shard_id = int SIZECEPH_ACTUAL_K - 1
                 then original_data_size - start_offset
                 else original_data_per_chunk)
      in substr_of original_data_bl start_offset len)"

text \<open>The loop over \<^verbatim>\<open>want_to_read\<close>, lines 521--569.\<close>

fun handle_requests ::
  "bufferlist \<Rightarrow> u32 \<Rightarrow> shard_id list \<Rightarrow> shard_buffers \<Rightarrow> outcome \<times> shard_buffers" where
  "handle_requests restored original_data_size [] decoded = (Success, decoded)"
| "handle_requests restored original_data_size (shard_id # rest) decoded =
     (if \<not> id_below shard_id SIZECEPH_ACTUAL_N then (Failure EINVAL, decoded)
      else if id_below shard_id SIZECEPH_ACTUAL_K then
        (case data_portion restored original_data_size shard_id of
           None \<Rightarrow> (Buffer_range_error, decoded)
         | Some chunk_bl \<Rightarrow>
             handle_requests restored original_data_size rest (decoded(shard_id \<mapsto> chunk_bl)))
      else handle_requests restored original_data_size rest decoded)"

text \<open>\<^verbatim>\<open>decode\<close>, lines 425--572.\<close>

definition decode ::
  "codec \<Rightarrow> lib_state \<Rightarrow> shard_id_set \<Rightarrow> chunk_map \<Rightarrow> shard_buffers \<Rightarrow> u32 \<Rightarrow> decode_result" where
  "decode env lib0 want_to_read chunks decoded chunk_size =
     (let available = available_shards chunks in
      if \<not> is_safe_to_decode available want_to_read
      then \<lparr>d_ret = Failure EIO, d_decoded = decoded, d_calls = [], d_lib = lib0\<rparr>
      else case load_sizeceph_actual_library env lib0 of
        (False, lib1) \<Rightarrow>
          \<lparr>d_ret = Failure ENOENT, d_decoded = decoded, d_calls = [], d_lib = lib1\<rparr>
      | (True, lib1) \<Rightarrow>
          if length available < SIZECEPH_ACTUAL_MIN_OSDS
          then \<lparr>d_ret = Failure ENOENT, d_decoded = decoded, d_calls = [], d_lib = lib1\<rparr>
          else
            let effective = effective_chunk_size chunks chunk_size in
            if effective = 0
            then \<lparr>d_ret = Failure EINVAL, d_decoded = decoded, d_calls = [], d_lib = lib1\<rparr>
            else
              let input = const_input_chunks chunks in
              if size_can_get_restore_fn env input = 0
              then \<lparr>d_ret = Failure ENOTSUP, d_decoded = decoded,
                    d_calls = [Call_can_restore input], d_lib = lib1\<rparr>
              else
                let original_data_size = effective * of_nat SIZECEPH_ACTUAL_K;
                    calls = [Call_can_restore input, Call_restore input original_data_size]
                in if restore_status env input original_data_size \<noteq> 0
                   then \<lparr>d_ret = Failure EIO, d_decoded = decoded, d_calls = calls, d_lib = lib1\<rparr>
                   else
                     let (r, decoded') =
                           handle_requests (restored_data env input original_data_size)
                             original_data_size want_to_read decoded
                     in \<lparr>d_ret = r, d_decoded = decoded', d_calls = calls, d_lib = lib1\<rparr>)"

subsection \<open>Concatenated decode\<close>








subsection \<open>Concrete inputs\<close>

text \<open>
  A library that loads, accepts every input and restores the bytes 0, 1, 2, ...; a library
  that cannot be loaded; the state before the first load; and chunk maps of 4-byte chunks
  with 5 keys, with 6 keys, and with 6 keys of which one is not a shard identifier.
\<close>

definition counting_codec :: codec where
  "counting_codec =
     \<lparr>dl_available = True,
      size_split = (\<lambda>inp len shard off. 0),
      size_restore = (\<lambda>input len. (0, \<lambda>off. of_nat off)),
      size_can_get_restore_fn = (\<lambda>input. 1)\<rparr>"

definition missing_codec :: codec where
  "missing_codec = counting_codec\<lparr>dl_available := False\<rparr>"

definition lib_unloaded :: lib_state where
  "lib_unloaded = \<lparr>library_loaded = False, library_ref_count = 0\<rparr>"

definition chunks_five :: chunk_map where
  "chunks_five =
     [(0, [1, 2, 3, 4]), (1, [1, 2, 3, 4]), (2, [1, 2, 3, 4]), (3, [1, 2, 3, 4]),
      (4, [1, 2, 3, 4])]"

definition chunks_six :: chunk_map where
  "chunks_six = chunks_five @ [(5, [1, 2, 3, 4])]"

definition chunks_stray :: chunk_map where
  "chunks_stray = chunks_five @ [(9, [1, 2, 3, 4])]"

section \<open>Unfolding the constants\<close>

lemmas sizeceph_consts =
  SIZECEPH_ACTUAL_K_def SIZECEPH_ACTUAL_M_def SIZECEPH_ACTUAL_N_def
  SIZECEPH_ACTUAL_MIN_OSDS_def SIZECEPH_ACTUAL_MAX_FAILURES_def SIZECEPH_ACTUAL_ALIGNMENT_def

lemmas fixture_defs =
  counting_codec_def missing_codec_def lib_unloaded_def chunks_five_def chunks_six_def
  chunks_stray_def

lemmas decode_eval =
  decode_def Let_def available_shards_def is_safe_to_decode_def sizeceph_consts
  load_sizeceph_actual_library_def effective_chunk_size_def buf_length_def
  const_input_chunks_def id_below_def restore_status_def restored_data_def data_portion_def
  substr_of_def get_chunk_size_def round_up_to_def upt_rec c_str_def chunk_copy_def

section \<open>Properties of the alignment calculator\<close>

lemma get_chunk_size_unfold:
  "get_chunk_size w = (if w mod 16 \<noteq> 0 then w + 16 - w mod 16 else w) div 4"
  by (simp add: get_chunk_size_def round_up_to_def sizeceph_consts)


lemma unat_mod16: "unat ((w::u32) mod 16) = unat w mod 16"
  by (simp add: unat_mod)

lemma unat_div4: "unat ((w::u32) div 4) = unat w div 4"
  by (simp add: unat_div)

lemma unat_floor16: "unat ((w::u32) - w mod 16) = unat w - unat w mod 16"
proof -
  have "w mod 16 \<le> w" by (simp add: word_le_nat_alt unat_mod16)
  then show ?thesis by (simp add: unat_sub unat_mod16)
qed

lemma unat_plus16:
  assumes "unat (x::u32) + 16 < 4294967296"
  shows "unat (x + 16) = unat x + 16"
  using assms by (simp add: unat_add_lem [THEN iffD1])

lemma pad_rearrange: "(w::u32) + 16 - w mod 16 = (w - w mod 16) + 16"
  by simp

lemma aligned_quarter:
  assumes "(n::nat) mod 16 = 0"
  shows "n div 4 = (n + 15) div 16 * 4"
proof -
  from assms obtain q where q: "n = 16 * q" by (auto simp: mod_eq_0_iff_dvd)
  have "(16 * q) div 4 = 4 * q" by simp
  moreover have "(16 * q + 15) div 16 = q" by simp
  ultimately show ?thesis by (simp add: q)
qed

lemma padded_quarter:
  assumes "(n::nat) mod 16 \<noteq> 0"
  shows "(n - n mod 16 + 16) div 4 = (n + 15) div 16 * 4"
proof -
  define q r where "q = n div 16" and "r = n mod 16"
  have n: "n = 16 * q + r" and r: "0 < r" "r < 16"
    using assms by (simp_all add: q_def r_def)
  have "n - n mod 16 = 16 * q" using n r_def by simp
  then have l: "(n - n mod 16 + 16) div 4 = 4 * q + 4" by simp
  have "n + 15 = 16 * (q + 1) + (r - 1)" using n r by simp
  moreover have "(16 * (q + 1) + (r - 1)) div 16 = q + 1" using r by simp
  ultimately have "(n + 15) div 16 = q + 1" by simp
  with l show ?thesis by simp
qed

text \<open>Below the last multiple of 16 that fits 32 bits, the chunk size is the exact one.\<close>

lemma unat_get_chunk_size:
  assumes "unat w \<le> 4294967280"
  shows "unat (get_chunk_size w) = ((unat w + 15) div 16) * 4"
proof (cases "w mod 16 = 0")
  case True
  with unat_mod16 [of w] have "unat w mod 16 = 0" by simp
  then have "unat w div 4 = (unat w + 15) div 16 * 4" by (rule aligned_quarter)
  moreover have "get_chunk_size w = w div 4" using True by (simp add: get_chunk_size_unfold)
  ultimately show ?thesis by (simp add: unat_div4)
next
  case False
  then have "unat (w mod 16) \<noteq> 0" by (simp add: unat_eq_0)
  then have nz: "unat w mod 16 \<noteq> 0" by (simp add: unat_mod16)
  have "m \<noteq> 0 \<Longrightarrow> unat w - m + 16 < 4294967296" for m :: nat
    using assms by linarith
  from this [OF nz] have "unat (w - w mod 16) + 16 < 4294967296"
    by (simp only: unat_floor16)
  then have "unat (w + 16 - w mod 16) = unat w - unat w mod 16 + 16"
    by (simp only: pad_rearrange unat_plus16 unat_floor16)
  moreover have "(unat w - unat w mod 16 + 16) div 4 = (unat w + 15) div 16 * 4"
    using nz by (rule padded_quarter)
  moreover have "get_chunk_size w = (w + 16 - w mod 16) div 4"
    using False by (simp add: get_chunk_size_unfold)
  ultimately show ?thesis by (simp add: unat_div4)
qed

lemma up16_ge: "(n::nat) \<le> 16 * ((n + 15) div 16)"
  by (simp add: algebra_simps)

lemma up16_least:
  assumes "(n::nat) \<le> 4 * c" and "16 dvd 4 * c"
  shows "(n + 15) div 16 * 4 \<le> c"
proof -
  from assms(2) obtain d where "4 * c = 16 * d" by (auto simp: dvd_def)
  then have c: "c = 4 * d" by simp
  with assms(1) have "n + 15 \<le> 16 * d + 15" by simp
  then have "(n + 15) div 16 \<le> (16 * d + 15) div 16" by (rule div_le_mono)
  then have "(n + 15) div 16 \<le> d" by simp
  with c show ?thesis by simp
qed

text \<open>
  C3, as stated: for every stripe width \<open>w\<close>, four chunks of \<open>get_chunk_size w\<close> bytes
  cover \<open>w\<close> bytes. \<^verbatim>\<open>get_chunk_size\<close> computes in \<^verbatim>\<open>unsigned int\<close>: the width
  \<open>2\<^sup>3\<^sup>2 - 1\<close> is padded to \<open>2\<^sup>3\<^sup>2\<close>, which wraps to 0, and the chunk size is 0.
\<close>

theorem get_chunk_size_wraps: 
  "get_chunk_size 4294967295 = 0 \<and>
   \<not> unat (4294967295 :: u32) \<le> 4 * unat (get_chunk_size 4294967295)"
  by (simp add: get_chunk_size_unfold)

text \<open>
  C3, amended: for every stripe width \<open>w\<close> of at most \<open>2\<^sup>3\<^sup>2 - 16\<close> bytes (the widths
  whose padding fits 32 bits), four chunks of \<open>get_chunk_size w\<close> bytes cover \<open>w\<close>, their
  total is a multiple of 16, and no smaller chunk size has these two properties; the chunk
  size of the width 0 is 0. (\<open>get_chunk_size\<close> is a function of \<open>w\<close> alone by its type.)
\<close>

theorem get_chunk_size_least_aligned:
  assumes "unat w \<le> 4294967280"
  shows "unat w \<le> 4 * unat (get_chunk_size w) \<and>
         16 dvd 4 * unat (get_chunk_size w) \<and>
         (\<forall>c. unat w \<le> 4 * c \<and> 16 dvd 4 * c \<longrightarrow> unat (get_chunk_size w) \<le> c) \<and>
         get_chunk_size 0 = 0"
proof -
  have cs: "unat (get_chunk_size w) = ((unat w + 15) div 16) * 4"
    using assms by (rule unat_get_chunk_size)
  have "unat w \<le> 4 * unat (get_chunk_size w)"
    using up16_ge [of "unat w"] by (simp add: cs)
  moreover have "16 dvd 4 * unat (get_chunk_size w)"
    by (simp add: cs)
  moreover have "\<forall>c. unat w \<le> 4 * c \<and> 16 dvd 4 * c \<longrightarrow> unat (get_chunk_size w) \<le> c"
    using up16_least [of "unat w"] by (simp add: cs)
  moreover have "get_chunk_size 0 = 0"
    by (simp add: get_chunk_size_unfold)
  ultimately show ?thesis by blast
qed

theorem get_chunk_size_least_aligned_witness:
  "unat (10 :: u32) \<le> 4294967280 \<and> get_chunk_size 10 = 4 \<and>
   unat (10 :: u32) \<le> 4 * unat (get_chunk_size 10) \<and>
   16 dvd 4 * unat (get_chunk_size 10)"
proof -
  have h: "unat (10 :: u32) \<le> 4294967280" by simp
  have "get_chunk_size 10 = 4" by (simp add: get_chunk_size_unfold)
  with h get_chunk_size_least_aligned [OF h] show ?thesis by simp
qed

section \<open>Properties of shard sets\<close>

lemma set_shard_insert: "set (shard_insert x s) = insert x (set s)"
  by (induction s) auto

lemma sorted_shard_insert:
  "sorted_wrt (<) s \<Longrightarrow> sorted_wrt (<) (shard_insert x s)"
  by (induction s) (auto simp: set_shard_insert)

lemma shard_insert_above:
  "\<forall>y\<in>set s. y < x \<Longrightarrow> shard_insert x s = s @ [x]"
  by (induction s) auto

lemma fold_insert_set:
  "set (foldl (\<lambda>a c. shard_insert (f c) a) s cs) = set s \<union> f ` set cs"
  by (induction cs arbitrary: s) (auto simp: set_shard_insert)

lemma fold_insert_sorted:
  "sorted_wrt (<) s \<Longrightarrow> sorted_wrt (<) (foldl (\<lambda>a c. shard_insert (f c) a) s cs)"
  by (induction cs arbitrary: s) (auto simp: sorted_shard_insert)

lemma set_available_shards: "set (available_shards chunks) = fst ` set chunks"
  by (simp add: available_shards_def fold_insert_set)

lemma sorted_available_shards: "sorted_wrt (<) (available_shards chunks)"
  by (simp add: available_shards_def fold_insert_sorted)

lemma ascending_distinct: "sorted_wrt (<) (s::int list) \<Longrightarrow> distinct s"
  by (induction s) auto

lemma length_available_shards: "length (available_shards chunks) = card (fst ` set chunks)"
proof -
  have "distinct (available_shards chunks)"
    by (rule ascending_distinct) (rule sorted_available_shards)
  then have "length (available_shards chunks) = card (set (available_shards chunks))"
    by (simp add: distinct_card)
  then show ?thesis by (simp add: set_available_shards)
qed

section \<open>The minimum read set\<close>

lemma minimum_loop_take:
  "sorted_wrt (<) (acc @ xs) \<Longrightarrow>
   minimum_loop i xs acc = acc @ take (SIZECEPH_ACTUAL_MIN_OSDS - i) xs"
proof (induction xs arbitrary: i acc)
  case Nil
  then show ?case by simp
next
  case (Cons x xs)
  from Cons.prems have above: "\<forall>y\<in>set acc. y < x"
    by (auto simp: sorted_wrt_append)
  show ?case
  proof (cases "i < SIZECEPH_ACTUAL_MIN_OSDS")
    case True
    have "sorted_wrt (<) ((acc @ [x]) @ xs)" using Cons.prems by simp
    then have "minimum_loop (Suc i) xs (acc @ [x]) =
               (acc @ [x]) @ take (SIZECEPH_ACTUAL_MIN_OSDS - Suc i) xs"
      by (rule Cons.IH)
    moreover have "take (SIZECEPH_ACTUAL_MIN_OSDS - i) (x # xs) =
                   x # take (SIZECEPH_ACTUAL_MIN_OSDS - Suc i) xs"
      using True by (simp add: take_Cons')
    ultimately show ?thesis using True above
      by (simp add: shard_insert_above)
  next
    case False
    then show ?thesis by simp
  qed
qed

text \<open>
  C4: for an available set of at least 6 shards (an ascending list), \<open>minimum_to_decode\<close>
  succeeds and stores the first 6 shards of the available set: 6 shards of the set, in
  ascending order, each below every shard that was not taken. The result is the same for
  every \<open>want_to_read\<close>.
\<close>

theorem minimum_to_decode_lowest:
  assumes "sorted_wrt (<) available" and "6 \<le> length available"
  shows "minimum_to_decode want_to_read available minimum_set = (Success, take 6 available) \<and>
         length (take 6 available) = 6 \<and>
         set (take 6 available) \<subseteq> set available \<and>
         sorted_wrt (<) (take 6 available) \<and>
         (\<forall>x\<in>set (take 6 available). \<forall>y\<in>set available - set (take 6 available). x < y) \<and>
         minimum_to_decode want' available minimum_set =
           minimum_to_decode want_to_read available minimum_set"
proof -
  have "minimum_loop 0 available [] = [] @ take (SIZECEPH_ACTUAL_MIN_OSDS - 0) available"
    using assms(1) by (intro minimum_loop_take) simp
  then have ret: "minimum_to_decode want_to_read available minimum_set =
                  (Success, take 6 available)"
    using assms(2) by (simp add: minimum_to_decode_def sizeceph_consts)
  have len: "length (take 6 available) = 6" using assms(2) by simp
  have sub: "set (take 6 available) \<subseteq> set available" by (rule set_take_subset)
  have s: "sorted_wrt (<) (take 6 available @ drop 6 available)" using assms(1) by simp
  then have parts: "sorted_wrt (<) (take 6 available) \<and>
      (\<forall>x\<in>set (take 6 available). \<forall>y\<in>set (drop 6 available). x < y)"
    unfolding sorted_wrt_append by blast
  have "set available = set (take 6 available) \<union> set (drop 6 available)"
    by (metis append_take_drop_id set_append)
  with parts have low:
    "\<forall>x\<in>set (take 6 available). \<forall>y\<in>set available - set (take 6 available). x < y"
    by blast
  have same: "minimum_to_decode want' available minimum_set =
         minimum_to_decode want_to_read available minimum_set"
    by (simp add: minimum_to_decode_def)
  from ret len sub parts low same show ?thesis by blast
qed

theorem minimum_to_decode_lowest_witness:
  "sorted_wrt (<) [0, 1, 2, 3, 4, 5, 6 :: int] \<and> 6 \<le> length [0, 1, 2, 3, 4, 5, 6 :: int] \<and>
   minimum_to_decode [0] [0, 1, 2, 3, 4, 5, 6] [] = (Success, [0, 1, 2, 3, 4, 5])"
proof -
  have h1: "sorted_wrt (<) [0, 1, 2, 3, 4, 5, 6 :: int]" by simp
  have h2: "6 \<le> length [0, 1, 2, 3, 4, 5, 6 :: int]" by simp
  from minimum_to_decode_lowest [OF h1 h2, of "[0]" "[]"] h1 h2 show ?thesis by simp
qed

section \<open>The paths through decode\<close>

lemma is_safe_to_decode_iff:
  "is_safe_to_decode available want \<longleftrightarrow> 6 \<le> length available"
  by (auto simp: is_safe_to_decode_def sizeceph_consts)

lemma decode_open:
  assumes "is_safe_to_decode (available_shards chunks) want"
    and "load_sizeceph_actual_library env lib0 = (True, lib1)"
    and "effective_chunk_size chunks chunk_size \<noteq> 0"
    and "size_can_get_restore_fn env (const_input_chunks chunks) \<noteq> 0"
    and "restore_status env (const_input_chunks chunks)
           (effective_chunk_size chunks chunk_size * 4) = 0"
  shows "decode env lib0 want chunks decoded chunk_size =
     \<lparr>d_ret = fst (handle_requests
                (restored_data env (const_input_chunks chunks)
                   (effective_chunk_size chunks chunk_size * 4))
                (effective_chunk_size chunks chunk_size * 4) want decoded),
      d_decoded = snd (handle_requests
                (restored_data env (const_input_chunks chunks)
                   (effective_chunk_size chunks chunk_size * 4))
                (effective_chunk_size chunks chunk_size * 4) want decoded),
      d_calls = [Call_can_restore (const_input_chunks chunks),
                 Call_restore (const_input_chunks chunks)
                   (effective_chunk_size chunks chunk_size * 4)],
      d_lib = lib1\<rparr>"
  using assms
  by (simp add: decode_def Let_def is_safe_to_decode_iff sizeceph_consts split: prod.splits)

lemma decode_loop_reached:
  assumes "d_ret (decode env lib0 want chunks decoded chunk_size) = Success \<or>
           d_ret (decode env lib0 want chunks decoded chunk_size) = Buffer_range_error \<or>
           (d_ret (decode env lib0 want chunks decoded chunk_size) = Failure EINVAL \<and>
            effective_chunk_size chunks chunk_size \<noteq> 0)"
  shows "is_safe_to_decode (available_shards chunks) want \<and>
         fst (load_sizeceph_actual_library env lib0) \<and>
         effective_chunk_size chunks chunk_size \<noteq> 0 \<and>
         size_can_get_restore_fn env (const_input_chunks chunks) \<noteq> 0 \<and>
         restore_status env (const_input_chunks chunks)
           (effective_chunk_size chunks chunk_size * 4) = 0"
  using assms
  by (auto simp: decode_def Let_def sizeceph_consts split: if_splits prod.splits bool.splits)

lemma handle_requests_Success:
  "handle_requests R ods want dec = (Success, dec') \<Longrightarrow>
     (\<forall>i\<in>set want. id_below i SIZECEPH_ACTUAL_N) \<and>
     (\<forall>i\<in>set want. id_below i SIZECEPH_ACTUAL_K \<longrightarrow> data_portion R ods i \<noteq> None) \<and>
     (\<forall>i. dec' i = (if i \<in> set want \<and> id_below i SIZECEPH_ACTUAL_K
                     then data_portion R ods i else dec i))"
proof (induction want arbitrary: dec)
  case Nil
  then show ?case by simp
next
  case (Cons x xs)
  from Cons.prems have inr: "id_below x SIZECEPH_ACTUAL_N"
    by (auto split: if_splits)
  show ?case
  proof (cases "id_below x SIZECEPH_ACTUAL_K")
    case True
    with Cons.prems inr obtain b where b: "data_portion R ods x = Some b"
      and rest: "handle_requests R ods xs (dec(x \<mapsto> b)) = (Success, dec')"
      by (auto split: option.splits)
    from Cons.IH [OF rest] inr True b show ?thesis by auto
  next
    case False
    with Cons.prems inr have rest: "handle_requests R ods xs dec = (Success, dec')"
      by simp
    from Cons.IH [OF rest] inr False show ?thesis by auto
  qed
qed

lemma handle_requests_skip_coding:
  "handle_requests R ods
     (filter (\<lambda>i. \<not> (id_below i SIZECEPH_ACTUAL_N \<and> \<not> id_below i SIZECEPH_ACTUAL_K)) want) dec =
   handle_requests R ods want dec"
  by (induction want arbitrary: dec) (auto split: option.splits)

lemma handle_requests_EINVAL:
  "handle_requests R ods want dec = (Failure EINVAL, dec') \<Longrightarrow>
   \<exists>pre j post. want = pre @ j # post \<and> \<not> id_below j SIZECEPH_ACTUAL_N \<and>
      handle_requests R ods pre dec = (Success, dec')"
proof (induction want arbitrary: dec)
  case Nil
  then show ?case by simp
next
  case (Cons x xs)
  show ?case
  proof (cases "id_below x SIZECEPH_ACTUAL_N")
    case False
    with Cons.prems have "dec' = dec" by simp
    with False have "x # xs = [] @ x # xs \<and> \<not> id_below x SIZECEPH_ACTUAL_N \<and>
      handle_requests R ods [] dec = (Success, dec')" by simp
    then show ?thesis by blast
  next
    case inr: True
    show ?thesis
    proof (cases "id_below x SIZECEPH_ACTUAL_K")
      case True
      with Cons.prems inr obtain b where b: "data_portion R ods x = Some b"
        and rest: "handle_requests R ods xs (dec(x \<mapsto> b)) = (Failure EINVAL, dec')"
        by (auto split: option.splits)
      from Cons.IH [OF rest] obtain pre j post where
        "xs = pre @ j # post" "\<not> id_below j SIZECEPH_ACTUAL_N"
        "handle_requests R ods pre (dec(x \<mapsto> b)) = (Success, dec')" by blast
      with inr True b have "x # xs = (x # pre) @ j # post \<and> \<not> id_below j SIZECEPH_ACTUAL_N \<and>
        handle_requests R ods (x # pre) dec = (Success, dec')" by simp
      then show ?thesis by blast
    next
      case False
      with Cons.prems inr have rest: "handle_requests R ods xs dec = (Failure EINVAL, dec')"
        by simp
      from Cons.IH [OF rest] obtain pre j post where
        "xs = pre @ j # post" "\<not> id_below j SIZECEPH_ACTUAL_N"
        "handle_requests R ods pre dec = (Success, dec')" by blast
      with inr False have "x # xs = (x # pre) @ j # post \<and> \<not> id_below j SIZECEPH_ACTUAL_N \<and>
        handle_requests R ods (x # pre) dec = (Success, dec')" by simp
      then show ?thesis by blast
    qed
  qed
qed


section \<open>The availability gate\<close>

lemma decode_rejected:
  "\<not> is_safe_to_decode (available_shards chunks) want \<Longrightarrow>
   decode env lib0 want chunks decoded chunk_size =
     \<lparr>d_ret = Failure EIO, d_decoded = decoded, d_calls = [], d_lib = lib0\<rparr>"
  by (simp add: decode_def)

text \<open>
  C1: the gate counts the distinct keys of \<open>chunks\<close>. With fewer than 6 of them decode
  returns \<open>-EIO\<close>, has called no function of the codec library, and leaves the output map
  as it was; with 6 or more the gate \<open>is_safe_to_decode\<close> accepts, whichever
  identifiers the keys are.
\<close>

theorem decode_gate:
  "(card (fst ` set chunks) < 6 \<longrightarrow>
      d_ret (decode env lib0 want chunks decoded chunk_size) = Failure EIO \<and>
      d_calls (decode env lib0 want chunks decoded chunk_size) = [] \<and>
      d_decoded (decode env lib0 want chunks decoded chunk_size) = decoded) \<and>
   (6 \<le> card (fst ` set chunks) \<longrightarrow> is_safe_to_decode (available_shards chunks) want) \<and>
   length (available_shards chunks) = card (fst ` set chunks)"
proof (intro conjI impI)
  assume "card (fst ` set chunks) < 6"
  then have closed: "\<not> is_safe_to_decode (available_shards chunks) want"
    by (simp add: is_safe_to_decode_iff length_available_shards)
  show "d_ret (decode env lib0 want chunks decoded chunk_size) = Failure EIO"
    by (simp add: decode_rejected [OF closed])
  show "d_calls (decode env lib0 want chunks decoded chunk_size) = []"
    by (simp add: decode_rejected [OF closed])
  show "d_decoded (decode env lib0 want chunks decoded chunk_size) = decoded"
    by (simp add: decode_rejected [OF closed])
next
  assume "6 \<le> card (fst ` set chunks)"
  then show "is_safe_to_decode (available_shards chunks) want"
    by (simp add: is_safe_to_decode_iff length_available_shards)
next
  show "length (available_shards chunks) = card (fst ` set chunks)"
    by (rule length_available_shards)
qed

theorem decode_gate_witness:
  "card (fst ` set chunks_five) < 6 \<and>
   d_ret (decode counting_codec lib_unloaded [0] chunks_five Map.empty 4) = Failure EIO \<and>
   d_calls (decode counting_codec lib_unloaded [0] chunks_five Map.empty 4) = [] \<and>
   d_decoded (decode counting_codec lib_unloaded [0] chunks_five Map.empty 4) = Map.empty \<and>
   6 \<le> card (fst ` set chunks_stray) \<and>
   is_safe_to_decode (available_shards chunks_stray) [0]"
proof -
  have five: "card (fst ` set chunks_five) < 6" by (simp add: fixture_defs)
  have six: "6 \<le> card (fst ` set chunks_stray)" by (simp add: fixture_defs)
  from decode_gate [of chunks_five counting_codec lib_unloaded "[0]" Map.empty 4]
       decode_gate [of chunks_stray counting_codec lib_unloaded "[0]" Map.empty 4]
       five six
  show ?thesis by blast
qed

section \<open>Reconciliation of the requested shards\<close>

lemma decode_loop_result:
  assumes "d_ret (decode env lib0 want chunks decoded chunk_size) = Success \<or>
           d_ret (decode env lib0 want chunks decoded chunk_size) = Buffer_range_error \<or>
           (d_ret (decode env lib0 want chunks decoded chunk_size) = Failure EINVAL \<and>
            effective_chunk_size chunks chunk_size \<noteq> 0)"
  shows "handle_requests
           (restored_data env (const_input_chunks chunks)
              (effective_chunk_size chunks chunk_size * 4))
           (effective_chunk_size chunks chunk_size * 4) want decoded =
         (d_ret (decode env lib0 want chunks decoded chunk_size),
          d_decoded (decode env lib0 want chunks decoded chunk_size)) \<and>
         d_calls (decode env lib0 want chunks decoded chunk_size) =
           [Call_can_restore (const_input_chunks chunks),
            Call_restore (const_input_chunks chunks)
              (effective_chunk_size chunks chunk_size * 4)]"
proof -
  note path = decode_loop_reached [OF assms]
  then have "load_sizeceph_actual_library env lib0 =
             (True, snd (load_sizeceph_actual_library env lib0))"
    by (simp add: prod_eq_iff)
  with path show ?thesis
    by (simp add: decode_open [where ?lib1.0 = "snd (load_sizeceph_actual_library env lib0)"])
qed

lemma decode_ignores_coding_requests:
  "decode env lib0 (filter (\<lambda>i. \<not> (4 \<le> i \<and> i < 9)) want) chunks decoded chunk_size =
   decode env lib0 want chunks decoded chunk_size"
proof -
  have eq: "filter (\<lambda>i. \<not> (4 \<le> i \<and> i < 9)) want =
        filter (\<lambda>i. \<not> (id_below i SIZECEPH_ACTUAL_N \<and> \<not> id_below i SIZECEPH_ACTUAL_K)) want"
    by (rule filter_cong) (auto simp: id_below_def sizeceph_consts)
  show ?thesis
    by (simp only: decode_def is_safe_to_decode_def eq handle_requests_skip_coding)
qed

text \<open>
  C2: when decode succeeds, the only entries it has written are those of the requested
  data shards (identifiers 0 to 3), each of which has an entry; every other entry of the
  output map, and so that of every requested coding shard (identifiers 4 to 8), is as it
  was before the call; started on an empty map, the result has exactly the requested data
  shards as keys. Requesting coding shards is not an error: the call returns what it
  returns without them.
\<close>

theorem decode_omits_coding_shards:
  assumes "d_ret (decode env lib0 want chunks decoded chunk_size) = Success"
  shows "(\<forall>i. \<not> (i \<in> set want \<and> 0 \<le> i \<and> i < 4) \<longrightarrow>
            d_decoded (decode env lib0 want chunks decoded chunk_size) i = decoded i) \<and>
         (\<forall>i\<in>set want. 4 \<le> i \<and> i < 9 \<longrightarrow>
            d_decoded (decode env lib0 want chunks decoded chunk_size) i = decoded i) \<and>
         (\<forall>i\<in>set want. 0 \<le> i \<and> i < 4 \<longrightarrow>
            d_decoded (decode env lib0 want chunks decoded chunk_size) i \<noteq> None) \<and>
         (decoded = Map.empty \<longrightarrow>
            dom (d_decoded (decode env lib0 want chunks decoded chunk_size)) =
              {i \<in> set want. 0 \<le> i \<and> i < 4}) \<and>
         decode env lib0 (filter (\<lambda>i. \<not> (4 \<le> i \<and> i < 9)) want) chunks decoded chunk_size =
           decode env lib0 want chunks decoded chunk_size"
proof -
  from assms decode_loop_result [of env lib0 want chunks decoded chunk_size]
  have "handle_requests
           (restored_data env (const_input_chunks chunks)
              (effective_chunk_size chunks chunk_size * 4))
           (effective_chunk_size chunks chunk_size * 4) want decoded =
         (Success, d_decoded (decode env lib0 want chunks decoded chunk_size))"
    by simp
  note loop = handle_requests_Success [OF this]
  have unchanged: "\<forall>i. \<not> (i \<in> set want \<and> 0 \<le> i \<and> i < 4) \<longrightarrow>
            d_decoded (decode env lib0 want chunks decoded chunk_size) i = decoded i"
    using loop by (auto simp: id_below_def sizeceph_consts)
  have written: "\<forall>i\<in>set want. 0 \<le> i \<and> i < 4 \<longrightarrow>
            d_decoded (decode env lib0 want chunks decoded chunk_size) i \<noteq> None"
    using loop by (auto simp: id_below_def sizeceph_consts)
  have keys: "decoded = Map.empty \<longrightarrow>
            dom (d_decoded (decode env lib0 want chunks decoded chunk_size)) =
              {i \<in> set want. 0 \<le> i \<and> i < 4}"
  proof
    assume e: "decoded = Map.empty"
    show "dom (d_decoded (decode env lib0 want chunks decoded chunk_size)) =
              {i \<in> set want. 0 \<le> i \<and> i < 4}"
    proof (rule set_eqI)
      fix i
      show "i \<in> dom (d_decoded (decode env lib0 want chunks decoded chunk_size)) \<longleftrightarrow>
            i \<in> {i \<in> set want. 0 \<le> i \<and> i < 4}"
        using unchanged written e by (cases "i \<in> set want \<and> 0 \<le> i \<and> i < 4") auto
    qed
  qed
  from unchanged written keys decode_ignores_coding_requests show ?thesis by simp
qed

theorem decode_omits_coding_shards_witness:
  "d_ret (decode counting_codec lib_unloaded [0, 1, 4] chunks_six Map.empty 4) = Success \<and>
   d_decoded (decode counting_codec lib_unloaded [0, 1, 4] chunks_six Map.empty 4) 4 = None \<and>
   d_decoded (decode counting_codec lib_unloaded [0, 1, 4] chunks_six Map.empty 4) 1 \<noteq> None \<and>
   dom (d_decoded (decode counting_codec lib_unloaded [0, 1, 4] chunks_six Map.empty 4)) = {0, 1}"
proof -
  have ok: "d_ret (decode counting_codec lib_unloaded [0, 1, 4] chunks_six Map.empty 4) = Success"
    by (simp add: decode_eval fixture_defs)
  have "{i \<in> set [0, 1, 4 :: int]. 0 \<le> i \<and> i < 4} = {0, 1}" by auto
  with decode_omits_coding_shards [OF ok] ok show ?thesis by simp
qed

text \<open>
  C10: let decode return \<open>-EINVAL\<close> although the chunk size is not zero, on a request (an
  ascending list) without negative identifiers. Then the request holds an identifier of 9
  or more, the codec library's \<^verbatim>\<open>size_can_get_restore_fn\<close> and \<^verbatim>\<open>size_restore\<close> have both
  been called, and the output map holds the slice of every requested data shard.
\<close>

theorem decode_invalid_id_not_atomic:
  assumes "d_ret (decode env lib0 want chunks decoded chunk_size) = Failure EINVAL"
    and "effective_chunk_size chunks chunk_size \<noteq> 0"
    and "sorted_wrt (<) want"
    and "\<forall>j\<in>set want. 0 \<le> j"
  shows "(\<exists>j\<in>set want. 9 \<le> j) \<and>
         d_calls (decode env lib0 want chunks decoded chunk_size) =
           [Call_can_restore (const_input_chunks chunks),
            Call_restore (const_input_chunks chunks)
              (effective_chunk_size chunks chunk_size * 4)] \<and>
         (\<forall>i\<in>set want. 0 \<le> i \<and> i < 4 \<longrightarrow>
            d_decoded (decode env lib0 want chunks decoded chunk_size) i \<noteq> None \<and>
            d_decoded (decode env lib0 want chunks decoded chunk_size) i =
              data_portion
                (restored_data env (const_input_chunks chunks)
                   (effective_chunk_size chunks chunk_size * 4))
                (effective_chunk_size chunks chunk_size * 4) i)"
proof -
  let ?r = "decode env lib0 want chunks decoded chunk_size"
  let ?ods = "effective_chunk_size chunks chunk_size * 4"
  let ?R = "restored_data env (const_input_chunks chunks) ?ods"
  from assms(1,2) decode_loop_result [of env lib0 want chunks decoded chunk_size]
  have loop: "handle_requests ?R ?ods want decoded = (Failure EINVAL, d_decoded ?r)"
    and calls: "d_calls ?r = [Call_can_restore (const_input_chunks chunks),
                              Call_restore (const_input_chunks chunks) ?ods]"
    by simp_all
  from handle_requests_EINVAL [OF loop] obtain pre j post where
    want: "want = pre @ j # post" and bad: "\<not> id_below j SIZECEPH_ACTUAL_N"
    and pre: "handle_requests ?R ?ods pre decoded = (Success, d_decoded ?r)"
    by blast
  from want assms(4) have "0 \<le> j" by simp
  with bad have j9: "9 \<le> j" by (simp add: id_below_def sizeceph_consts)
  from want have jin: "j \<in> set want" by simp
  from assms(3) want have above: "\<forall>y\<in>set post. j < y"
    by (simp add: sorted_wrt_append)
  have data_in_pre: "i \<in> set pre" if "i \<in> set want" "i < 4" for i
    using that want j9 above by auto
  note ok = handle_requests_Success [OF pre]
  have "\<forall>i\<in>set want. 0 \<le> i \<and> i < 4 \<longrightarrow>
          d_decoded ?r i \<noteq> None \<and> d_decoded ?r i = data_portion ?R ?ods i"
    using ok data_in_pre by (auto simp: id_below_def sizeceph_consts)
  with jin j9 calls show ?thesis by blast
qed

theorem decode_invalid_id_not_atomic_witness:
  "d_ret (decode counting_codec lib_unloaded [0, 1, 9] chunks_six Map.empty 4) = Failure EINVAL \<and>
   effective_chunk_size chunks_six 4 \<noteq> 0 \<and>
   sorted_wrt (<) [0, 1, 9 :: int] \<and>
   d_calls (decode counting_codec lib_unloaded [0, 1, 9] chunks_six Map.empty 4) =
     [Call_can_restore (const_input_chunks chunks_six),
      Call_restore (const_input_chunks chunks_six) 16] \<and>
   d_decoded (decode counting_codec lib_unloaded [0, 1, 9] chunks_six Map.empty 4) 0 \<noteq> None \<and>
   d_decoded (decode counting_codec lib_unloaded [0, 1, 9] chunks_six Map.empty 4) 1 \<noteq> None"
proof -
  have h1: "d_ret (decode counting_codec lib_unloaded [0, 1, 9] chunks_six Map.empty 4) =
            Failure EINVAL"
    by (simp add: decode_eval fixture_defs)
  have h2: "effective_chunk_size chunks_six 4 \<noteq> 0"
    by (simp add: effective_chunk_size_def)
  have h3: "sorted_wrt (<) [0, 1, 9 :: int]" by simp
  have h4: "\<forall>j\<in>set [0, 1, 9 :: int]. 0 \<le> j" by simp
  have e: "effective_chunk_size chunks_six 4 * 4 = 16"
    by (simp add: effective_chunk_size_def)
  note t = decode_invalid_id_not_atomic [OF h1 h2 h3 h4]
  from t have calls:
    "d_calls (decode counting_codec lib_unloaded [0, 1, 9] chunks_six Map.empty 4) =
       [Call_can_restore (const_input_chunks chunks_six),
        Call_restore (const_input_chunks chunks_six) (effective_chunk_size chunks_six 4 * 4)]"
    by blast
  from t have "\<forall>i\<in>set [0, 1, 9 :: int]. 0 \<le> i \<and> i < 4 \<longrightarrow>
      d_decoded (decode counting_codec lib_unloaded [0, 1, 9] chunks_six Map.empty 4) i \<noteq> None"
    by blast
  with calls h1 h2 h3 e show ?thesis by simp
qed

section \<open>The input array of the library\<close>

lemma length_load_chunks: "length (load_chunks cs inp) = length inp"
  by (induction cs inp rule: load_chunks.induct) auto

lemma load_chunks_present:
  "i < length inp \<Longrightarrow> load_chunks cs inp ! i \<noteq> None \<Longrightarrow>
     inp ! i \<noteq> None \<or> (int i \<in> fst ` set cs \<and> i < SIZECEPH_ACTUAL_N)"
proof (induction cs inp rule: load_chunks.induct)
  case (1 inp)
  then show ?case by simp
next
  case (2 shard_id bl rest inp)
  show ?case
  proof (cases "id_below shard_id SIZECEPH_ACTUAL_N")
    case True
    then have k: "0 \<le> shard_id" "nat shard_id < SIZECEPH_ACTUAL_N"
      by (auto simp: id_below_def)
    let ?inp' = "inp[nat shard_id := c_str (chunk_copy (inp ! nat shard_id) @ bl)]"
    have len: "i < length ?inp'" using "2.prems"(1) by simp
    from "2.prems"(2) True have "load_chunks rest ?inp' ! i \<noteq> None" by simp
    with "2.IH"(1) [OF True len]
    have "?inp' ! i \<noteq> None \<or> (int i \<in> fst ` set rest \<and> i < SIZECEPH_ACTUAL_N)"
      by blast
    moreover have "?inp' ! i \<noteq> None \<Longrightarrow> inp ! i \<noteq> None \<or> i = nat shard_id"
      by (cases "i = nat shard_id") simp_all
    moreover have "i = nat shard_id \<Longrightarrow> int i = shard_id \<and> i < SIZECEPH_ACTUAL_N"
      using k by simp
    ultimately show ?thesis by auto
  next
    case False
    with 2 show ?thesis by auto
  qed
qed

lemma length_const_input_chunks: "length (const_input_chunks chunks) = 9"
  by (simp add: const_input_chunks_def length_load_chunks sizeceph_consts)

lemma const_input_chunks_present:
  "i < 9 \<Longrightarrow> const_input_chunks chunks ! i \<noteq> None \<Longrightarrow> int i \<in> fst ` set chunks"
  using load_chunks_present [of i "replicate 9 None" chunks]
  by (simp add: const_input_chunks_def sizeceph_consts)

lemma present_count:
  "length (filter (\<lambda>slot. slot \<noteq> None) (const_input_chunks chunks)) \<le>
   card (fst ` set chunks \<inter> {0..<9})"
proof -
  have "length (filter (\<lambda>slot. slot \<noteq> None) (const_input_chunks chunks)) =
        card {i. i < 9 \<and> const_input_chunks chunks ! i \<noteq> None}"
    by (simp add: length_filter_conv_card length_const_input_chunks)
  also have "\<dots> = card (int ` {i. i < 9 \<and> const_input_chunks chunks ! i \<noteq> None})"
    by (simp add: card_image)
  also have "\<dots> \<le> card (fst ` set chunks \<inter> {0..<9})"
  proof (rule card_mono)
    show "finite (fst ` set chunks \<inter> {0..<9})" by simp
    show "int ` {i. i < 9 \<and> const_input_chunks chunks ! i \<noteq> None} \<subseteq>
          fst ` set chunks \<inter> {0..<9}"
      using const_input_chunks_present [of _ chunks] by auto
  qed
  finally show ?thesis .
qed

lemma decode_calls_nonempty:
  assumes "is_safe_to_decode (available_shards chunks) want"
    and "fst (load_sizeceph_actual_library env lib0)"
    and "effective_chunk_size chunks chunk_size \<noteq> 0"
  shows "hd (d_calls (decode env lib0 want chunks decoded chunk_size)) =
           Call_can_restore (const_input_chunks chunks) \<and>
         d_calls (decode env lib0 want chunks decoded chunk_size) \<noteq> []"
  using assms
  by (auto simp: decode_def Let_def is_safe_to_decode_iff sizeceph_consts
           split: if_splits prod.splits bool.splits)

text \<open>
  C9: let \<open>chunks\<close> have at least 6 distinct keys, one of them 9 or more. The gate counts
  all the keys and accepts. The array built for the library has 9 slots, and a slot \<open>i\<close>
  that holds a chunk has \<open>i\<close> as a key, so the chunks under keys of 9 or more are in no
  slot and the array holds fewer chunks than the gate counted. When the library loads and
  the chunk size is not zero, this array is what \<^verbatim>\<open>size_can_get_restore_fn\<close> is called
  with.
\<close>

theorem gate_counts_stray_keys:
  assumes "6 \<le> card (fst ` set chunks)"
    and "\<exists>k\<in>fst ` set chunks. 9 \<le> k"
  shows "is_safe_to_decode (available_shards chunks) want \<and>
         length (available_shards chunks) = card (fst ` set chunks) \<and>
         length (const_input_chunks chunks) = 9 \<and>
         (\<forall>i<9. const_input_chunks chunks ! i \<noteq> None \<longrightarrow> int i \<in> fst ` set chunks) \<and>
         length (filter (\<lambda>slot. slot \<noteq> None) (const_input_chunks chunks)) <
           length (available_shards chunks) \<and>
         (fst (load_sizeceph_actual_library env lib0) \<and>
          effective_chunk_size chunks chunk_size \<noteq> 0 \<longrightarrow>
            hd (d_calls (decode env lib0 want chunks decoded chunk_size)) =
              Call_can_restore (const_input_chunks chunks) \<and>
            d_calls (decode env lib0 want chunks decoded chunk_size) \<noteq> [])"
proof -
  have gate: "is_safe_to_decode (available_shards chunks) want"
    using assms(1) by (simp add: is_safe_to_decode_iff length_available_shards)
  from assms(2) obtain k where k: "k \<in> fst ` set chunks" "9 \<le> k" by blast
  then have "k \<notin> fst ` set chunks \<inter> {0..<9}" by simp
  with k have "fst ` set chunks \<inter> {0..<9} \<subset> fst ` set chunks" by blast
  then have "card (fst ` set chunks \<inter> {0..<9}) < card (fst ` set chunks)"
    by (intro psubset_card_mono) simp_all
  then have fewer: "length (filter (\<lambda>slot. slot \<noteq> None) (const_input_chunks chunks)) <
           length (available_shards chunks)"
    using present_count [of chunks] length_available_shards [of chunks] by simp
  from gate fewer length_available_shards length_const_input_chunks
       const_input_chunks_present decode_calls_nonempty [OF gate]
  show ?thesis by (auto simp del: hd_Cons_tl)
qed


theorem gate_counts_stray_keys_witness:
  "6 \<le> card (fst ` set chunks_stray) \<and> (9::int) \<in> fst ` set chunks_stray \<and>
   is_safe_to_decode (available_shards chunks_stray) [0] \<and>
   length (available_shards chunks_stray) = 6 \<and>
   length (filter (\<lambda>slot. slot \<noteq> None) (const_input_chunks chunks_stray)) = 5 \<and>
   hd (d_calls (decode counting_codec lib_unloaded [0] chunks_stray Map.empty 4)) =
     Call_can_restore (const_input_chunks chunks_stray)"
proof -
  have h1: "6 \<le> card (fst ` set chunks_stray)" by (simp add: fixture_defs)
  have nine: "(9::int) \<in> fst ` set chunks_stray" by (simp add: fixture_defs)
  then have h2: "\<exists>k\<in>fst ` set chunks_stray. 9 \<le> k" by (rule rev_bexI) simp
  have l: "fst (load_sizeceph_actual_library counting_codec lib_unloaded)"
    by (simp add: load_sizeceph_actual_library_def fixture_defs)
  have e: "effective_chunk_size chunks_stray 4 \<noteq> 0"
    by (simp add: effective_chunk_size_def)
  have a: "length (available_shards chunks_stray) = 6"
    by (simp add: available_shards_def fixture_defs)
  have f: "length (filter (\<lambda>slot. slot \<noteq> None) (const_input_chunks chunks_stray)) = 5"
    by (simp add: const_input_chunks_def id_below_def sizeceph_consts fixture_defs
                  eval_nat_numeral c_str_def chunk_copy_def)
  from gate_counts_stray_keys [OF h1 h2, of "[0]" counting_codec lib_unloaded 4 Map.empty]
       h1 nine l e a f
  show ?thesis by blast
qed

section \<open>The slices of the data shards\<close>

lemma unat_padded_aligned:
  "unat (if (w::u32) mod 16 \<noteq> 0 then w + 16 - w mod 16 else w) mod 16 = 0"
proof (cases "w mod 16 = 0")
  case True
  with unat_mod16 [of w] show ?thesis by simp
next
  case False
  have "unat w - unat w mod 16 = 16 * (unat w div 16)"
    by (simp add: minus_mod_eq_mult_div)
  then have "unat (w - w mod 16) = 16 * (unat w div 16)"
    by (simp only: unat_floor16)
  then have "unat (w - w mod 16 + 16) = (16 * (unat w div 16) + 16) mod 4294967296"
    by (simp add: unat_word_ariths)
  moreover have "(16 * (unat w div 16) + 16) mod 4294967296 mod 16 = 0"
    by (simp add: mod_mod_cancel)
  ultimately show ?thesis using False by (simp only: pad_rearrange if_True not_False_eq_True)
qed

lemma unat_get_chunk_size_range:
  "4 dvd unat (get_chunk_size w) \<and> unat (get_chunk_size w) < 1073741824"
proof -
  let ?x = "if w mod 16 \<noteq> 0 then w + 16 - w mod 16 else w"
  have u: "unat (get_chunk_size w) = unat ?x div 4"
    by (simp only: get_chunk_size_unfold unat_div4)
  from unat_padded_aligned [of w] obtain q where q: "unat ?x = 16 * q"
    by (auto simp: mod_eq_0_iff_dvd)
  have "unat ?x < 4294967296" using unsigned_less [of ?x, where ?'a = nat] by simp
  with q have "unat ?x div 4 = 4 * q \<and> unat ?x div 4 < 1073741824" by simp
  with u show ?thesis by simp
qed

lemma chunk_size_round_trip:
  assumes "4 dvd unat (cs::u32)" and "unat cs < 1073741824"
  shows "unat (cs * 4) = 4 * unat cs" and "get_chunk_size (cs * 4) = cs"
proof -
  have "unat cs * unat (4::u32) < 2 ^ LENGTH(32)" using assms(2) by simp
  then have "unat (cs * 4) = unat cs * unat (4::u32)"
    by (simp only: unat_mult_lem [THEN iffD1])
  then show m: "unat (cs * 4) = 4 * unat cs" by simp
  from assms(1) obtain q where q: "unat cs = 4 * q" by (auto simp: dvd_def)
  have "unat ((cs * 4) mod 16) = 0" by (simp add: unat_mod16 m q)
  then have al: "(cs * 4) mod 16 = 0" by (simp add: unat_eq_0)
  have "unat ((cs * 4) div 4) = unat cs" by (simp add: unat_div4 m)
  then have "(cs * 4) div 4 = cs" by (simp only: word_unat_eq_iff)
  with al show "get_chunk_size (cs * 4) = cs" by (simp add: get_chunk_size_unfold)
qed

lemma unat_data_offset:
  assumes "unat (cs::u32) < 1073741824" and "0 \<le> i" and "i < 4"
  shows "unat (of_int i * cs) = nat i * unat cs"
proof -
  from assms(2,3) have "i = 0 \<or> i = 1 \<or> i = 2 \<or> i = 3" by auto
  moreover have "unat (2 * cs) = 2 * unat cs"
    using assms(1) unat_mult_lem [of 2 cs] by simp
  moreover have "unat (3 * cs) = 3 * unat cs"
    using assms(1) unat_mult_lem [of 3 cs] by simp
  ultimately show ?thesis by auto
qed

lemma data_portion_slice:
  assumes "4 dvd unat (cs::u32)" and "unat cs < 1073741824"
    and "length R = 4 * unat cs" and "0 \<le> i" and "i < 4"
  shows "data_portion R (cs * 4) i = Some (take (unat cs) (drop (nat i * unat cs) R))"
proof -
  have len: "(if i = int SIZECEPH_ACTUAL_K - 1 then cs * 4 - of_int i * cs else cs) = cs"
    by (simp add: sizeceph_consts)
  have "nat i * unat cs + unat cs \<le> 4 * unat cs"
  proof -
    from assms(4,5) have "nat i \<le> 3" by linarith
    then have "nat i * unat cs \<le> 3 * unat cs" by (rule mult_le_mono1)
    then show ?thesis by linarith
  qed
  moreover note off = unat_data_offset [OF assms(2,4,5)]
  ultimately have "\<not> length R < unat (of_int i * cs) + unat cs"
    unfolding off assms(3) by linarith
  then have "substr_of R (of_int i * cs) cs = Some (take (unat cs) (drop (nat i * unat cs) R))"
    by (simp add: substr_of_def off)
  then show ?thesis
    by (simp add: data_portion_def Let_def chunk_size_round_trip(2) [OF assms(1,2)] len)
qed

lemma length_restored_data: "length (restored_data env input ods) = unat ods"
  by (simp add: restored_data_def)

lemma four_slices:
  assumes "length R = 4 * n"
  shows "take n R @ take n (drop n R) @ take n (drop (2 * n) R) @ take n (drop (3 * n) R) = R"
proof -
  have "take (n + (n + (n + n))) R = R" using assms by simp
  then have "take n R @ take n (drop n R) @ take n (drop (n + n) R) @
             take n (drop (n + (n + n)) R) = R"
    by (simp add: take_add add.commute)
  moreover have "2 * n = n + n" "3 * n = n + (n + n)" by simp_all
  ultimately show ?thesis by (simp only:)
qed


text \<open>
  C5: let decode succeed with an effective chunk size \<open>cs\<close> that is a value of
  \<open>get_chunk_size\<close>. Then \<open>cs\<close> is a multiple of 4, the recovered buffer has \<open>4 \<times> cs\<close>
  bytes and \<open>get_chunk_size (4 \<times> cs) = cs\<close>. Every requested data shard \<open>i\<close> (0 to 3) is
  given the slice of the recovered buffer at offset \<open>i \<times> get_chunk_size (4 \<times> cs)\<close> of
  length \<open>get_chunk_size (4 \<times> cs)\<close>, shard 3 the rest up to \<open>4 \<times> cs\<close>; each slice is
  the \<open>cs\<close> bytes from offset \<open>i \<times> cs\<close>. When 0, 1, 2 and 3 are all requested, the four
  slices have \<open>cs\<close> bytes each and their concatenation is the recovered buffer.
\<close>

theorem decode_data_slices:
  assumes "d_ret (decode env lib0 want chunks decoded chunk_size) = Success"
    and "effective_chunk_size chunks chunk_size = get_chunk_size w"
  shows "4 dvd unat (get_chunk_size w) \<and>
         length (restored_data env (const_input_chunks chunks) (get_chunk_size w * 4)) =
           4 * unat (get_chunk_size w) \<and>
         get_chunk_size (get_chunk_size w * 4) = get_chunk_size w \<and>
         (\<forall>i\<in>set want. 0 \<le> i \<and> i < 4 \<longrightarrow>
            d_decoded (decode env lib0 want chunks decoded chunk_size) i =
              substr_of (restored_data env (const_input_chunks chunks) (get_chunk_size w * 4))
                (of_int i * get_chunk_size (get_chunk_size w * 4))
                (if i = 3
                 then get_chunk_size w * 4 - of_int i * get_chunk_size (get_chunk_size w * 4)
                 else get_chunk_size (get_chunk_size w * 4)) \<and>
            d_decoded (decode env lib0 want chunks decoded chunk_size) i =
              Some (take (unat (get_chunk_size w))
                     (drop (nat i * unat (get_chunk_size w))
                        (restored_data env (const_input_chunks chunks) (get_chunk_size w * 4))))) \<and>
         ({0, 1, 2, 3} \<subseteq> set want \<longrightarrow>
            (\<exists>b0 b1 b2 b3.
               d_decoded (decode env lib0 want chunks decoded chunk_size) 0 = Some b0 \<and>
               d_decoded (decode env lib0 want chunks decoded chunk_size) 1 = Some b1 \<and>
               d_decoded (decode env lib0 want chunks decoded chunk_size) 2 = Some b2 \<and>
               d_decoded (decode env lib0 want chunks decoded chunk_size) 3 = Some b3 \<and>
               length b0 = unat (get_chunk_size w) \<and> length b1 = unat (get_chunk_size w) \<and>
               length b2 = unat (get_chunk_size w) \<and> length b3 = unat (get_chunk_size w) \<and>
               b0 @ b1 @ b2 @ b3 =
                 restored_data env (const_input_chunks chunks) (get_chunk_size w * 4)))"
proof -
  let ?cs = "get_chunk_size w"
  let ?r = "decode env lib0 want chunks decoded chunk_size"
  let ?R = "restored_data env (const_input_chunks chunks) (?cs * 4)"
  let ?n = "unat ?cs"
  from unat_get_chunk_size_range [of w]
  have dvd: "4 dvd ?n" and small: "?n < 1073741824" by simp_all
  note rt = chunk_size_round_trip [OF dvd small]
  have len: "length ?R = 4 * ?n" by (simp add: length_restored_data rt(1))
  from assms decode_loop_result [of env lib0 want chunks decoded chunk_size]
  have "handle_requests ?R (?cs * 4) want decoded = (Success, d_decoded ?r)" by simp
  note loop = handle_requests_Success [OF this]
  have slice: "d_decoded ?r i = Some (take ?n (drop (nat i * ?n) ?R))"
    and formula: "d_decoded ?r i =
              substr_of ?R (of_int i * get_chunk_size (?cs * 4))
                (if i = 3 then ?cs * 4 - of_int i * get_chunk_size (?cs * 4)
                 else get_chunk_size (?cs * 4))"
    if "i \<in> set want" "0 \<le> i" "i < 4" for i
  proof -
    from that loop have d: "d_decoded ?r i = data_portion ?R (?cs * 4) i"
      by (simp add: id_below_def sizeceph_consts)
    with data_portion_slice [OF dvd small len that(2,3)]
    show "d_decoded ?r i = Some (take ?n (drop (nat i * ?n) ?R))" by simp
    from d show "d_decoded ?r i =
              substr_of ?R (of_int i * get_chunk_size (?cs * 4))
                (if i = 3 then ?cs * 4 - of_int i * get_chunk_size (?cs * 4)
                 else get_chunk_size (?cs * 4))"
      by (simp add: data_portion_def Let_def sizeceph_consts)
  qed
  have all: "{0, 1, 2, 3} \<subseteq> set want \<longrightarrow>
            (\<exists>b0 b1 b2 b3.
               d_decoded ?r 0 = Some b0 \<and> d_decoded ?r 1 = Some b1 \<and>
               d_decoded ?r 2 = Some b2 \<and> d_decoded ?r 3 = Some b3 \<and>
               length b0 = ?n \<and> length b1 = ?n \<and> length b2 = ?n \<and> length b3 = ?n \<and>
               b0 @ b1 @ b2 @ b3 = ?R)"
  proof
    assume w: "{0, 1, 2, 3} \<subseteq> set want"
    have s0: "d_decoded ?r 0 = Some (take ?n ?R)"
      using slice [of 0] w by simp
    have s1: "d_decoded ?r 1 = Some (take ?n (drop ?n ?R))"
      using slice [of 1] w by simp
    have s2: "d_decoded ?r 2 = Some (take ?n (drop (2 * ?n) ?R))"
      using slice [of 2] w by simp
    have s3: "d_decoded ?r 3 = Some (take ?n (drop (3 * ?n) ?R))"
      using slice [of 3] w by simp
    have l: "length (take ?n ?R) = ?n" "length (take ?n (drop ?n ?R)) = ?n"
      "length (take ?n (drop (2 * ?n) ?R)) = ?n" "length (take ?n (drop (3 * ?n) ?R)) = ?n"
      using len by simp_all
    from s0 s1 s2 s3 l four_slices [OF len]
    show "\<exists>b0 b1 b2 b3.
               d_decoded ?r 0 = Some b0 \<and> d_decoded ?r 1 = Some b1 \<and>
               d_decoded ?r 2 = Some b2 \<and> d_decoded ?r 3 = Some b3 \<and>
               length b0 = ?n \<and> length b1 = ?n \<and> length b2 = ?n \<and> length b3 = ?n \<and>
               b0 @ b1 @ b2 @ b3 = ?R"
      by blast
  qed
  from dvd len rt(2) slice formula all show ?thesis by blast
qed

theorem decode_data_slices_witness:
  "d_ret (decode counting_codec lib_unloaded [0, 1, 2, 3] chunks_six Map.empty 4) = Success \<and>
   effective_chunk_size chunks_six 4 = get_chunk_size 16 \<and>
   restored_data counting_codec (const_input_chunks chunks_six) 16 =
     [0, 1, 2, 3, 4, 5, 6, 7, 8, 9, 10, 11, 12, 13, 14, 15] \<and>
   d_decoded (decode counting_codec lib_unloaded [0, 1, 2, 3] chunks_six Map.empty 4) 0 =
     Some [0, 1, 2, 3] \<and>
   d_decoded (decode counting_codec lib_unloaded [0, 1, 2, 3] chunks_six Map.empty 4) 1 =
     Some [4, 5, 6, 7] \<and>
   d_decoded (decode counting_codec lib_unloaded [0, 1, 2, 3] chunks_six Map.empty 4) 2 =
     Some [8, 9, 10, 11] \<and>
   d_decoded (decode counting_codec lib_unloaded [0, 1, 2, 3] chunks_six Map.empty 4) 3 =
     Some [12, 13, 14, 15]"
proof -
  have h1: "d_ret (decode counting_codec lib_unloaded [0, 1, 2, 3] chunks_six Map.empty 4) =
            Success"
    by (simp add: decode_eval fixture_defs)
  have g: "get_chunk_size 16 = 4" by (simp add: get_chunk_size_unfold)
  have h2: "effective_chunk_size chunks_six 4 = get_chunk_size 16"
    by (simp add: effective_chunk_size_def g)
  have R: "restored_data counting_codec (const_input_chunks chunks_six) 16 =
     [0, 1, 2, 3, 4, 5, 6, 7, 8, 9, 10, 11, 12, 13, 14, 15]"
    by (simp add: restored_data_def counting_codec_def upt_rec)
  from decode_data_slices [OF h1 h2]
  have "\<forall>i\<in>set [0, 1, 2, 3 :: int]. 0 \<le> i \<and> i < 4 \<longrightarrow>
      d_decoded (decode counting_codec lib_unloaded [0, 1, 2, 3] chunks_six Map.empty 4) i =
        Some (take (unat (get_chunk_size 16))
               (drop (nat i * unat (get_chunk_size 16))
                  (restored_data counting_codec (const_input_chunks chunks_six)
                     (get_chunk_size 16 * 4))))"
    by blast
  with h1 h2 R show ?thesis by (simp add: g)
qed


section \<open>Concatenated decode\<close>










section \<open>Validation of an encode request\<close>

lemma full_set_by_count:
  assumes "sorted_wrt (<) (want :: int list)" and "length want = 9"
    and "\<forall>s\<in>set want. 0 \<le> s \<and> s < 9"
  shows "set want = {0..8}"
proof -
  have "distinct want" using assms(1) by (rule ascending_distinct)
  then have "card (set want) = 9" using assms(2) by (simp add: distinct_card)
  moreover have "set want \<subseteq> {0..8}" using assms(3) by auto
  moreover have "card {0..8::int} = 9" by simp
  ultimately show ?thesis by (intro card_subset_eq) simp_all
qed

lemma encode_validation:
  assumes "length want \<noteq> 9 \<or> (\<exists>s\<in>set want. s < 0 \<or> 9 \<le> s)"
  shows "e_calls (encode env lib0 want inp encoded) = [] \<and>
         e_encoded (encode env lib0 want inp encoded) = encoded \<and>
         (e_ret (encode env lib0 want inp encoded) = Failure EINVAL \<or>
          e_ret (encode env lib0 want inp encoded) = Failure ENOENT) \<and>
         (e_ret (encode env lib0 want inp encoded) = Failure EINVAL \<longleftrightarrow>
            fst (load_sizeceph_actual_library env lib0))"
  using assms
  by (auto simp: encode_def list_ex_iff sizeceph_consts split: prod.splits bool.splits)

lemma encode_validated:
  assumes "length want = 9" and "\<forall>s\<in>set want. 0 \<le> s \<and> s < 9"
    and "fst (load_sizeceph_actual_library env lib0)"
  shows "e_ret (encode env lib0 want inp encoded) = Failure EINVAL \<longleftrightarrow>
           buf_length inp \<noteq> 0 \<and> buf_length inp mod 4 \<noteq> 0"
  using assms
  by (auto simp: encode_def list_ex_iff sizeceph_consts get_alignment_def Let_def
           split: prod.splits bool.splits)

text \<open>
  C6, as stated: every encode call with a request that is not the full set fails with
  \<open>-EINVAL\<close>. The library is loaded before the request is looked at: where it cannot be
  loaded, the call returns \<open>-ENOENT\<close>, here for the empty request.
\<close>

theorem encode_library_missing:
  "set ([] :: int list) \<noteq> {0..8} \<and>
   e_ret (encode missing_codec lib_unloaded [] [1, 2, 3, 4] Map.empty) = Failure ENOENT \<and>
   e_ret (encode missing_codec lib_unloaded [] [1, 2, 3, 4] Map.empty) \<noteq> Failure EINVAL"
  by (simp add: encode_def load_sizeceph_actual_library_def fixture_defs)


text \<open>
  C6, amended: a request (an ascending list) that is not the full set \<open>{0, ..., 8}\<close> has a
  length other than 9 or holds an identifier outside 0 to 8; encode then fails without a
  call of \<^verbatim>\<open>size_split\<close> and without a change to the output map, with \<open>-EINVAL\<close> when
  the library is loaded or loads, and with \<open>-ENOENT\<close> when it does not. A request of 9
  identifiers from 0 to 8 is the full set and passes the validation of the request: with
  the library loaded, the call returns \<open>-EINVAL\<close> only for an input whose length is not
  a multiple of 4.
\<close>

theorem encode_requires_full_set:
  assumes "sorted_wrt (<) want"
  shows "(set want \<noteq> {0..8} \<longrightarrow>
            (length want \<noteq> 9 \<or> (\<exists>s\<in>set want. s < 0 \<or> 9 \<le> s)) \<and>
            e_calls (encode env lib0 want inp encoded) = [] \<and>
            e_encoded (encode env lib0 want inp encoded) = encoded \<and>
            (e_ret (encode env lib0 want inp encoded) = Failure EINVAL \<or>
             e_ret (encode env lib0 want inp encoded) = Failure ENOENT) \<and>
            (e_ret (encode env lib0 want inp encoded) = Failure EINVAL \<longleftrightarrow>
               fst (load_sizeceph_actual_library env lib0))) \<and>
         (length want = 9 \<and> (\<forall>s\<in>set want. 0 \<le> s \<and> s < 9) \<longrightarrow>
            set want = {0..8} \<and>
            (fst (load_sizeceph_actual_library env lib0) \<longrightarrow>
               (e_ret (encode env lib0 want inp encoded) = Failure EINVAL \<longleftrightarrow>
                  buf_length inp \<noteq> 0 \<and> buf_length inp mod 4 \<noteq> 0)))"
proof (intro conjI impI)
  assume ne: "set want \<noteq> {0..8}"
  show bad: "length want \<noteq> 9 \<or> (\<exists>s\<in>set want. s < 0 \<or> 9 \<le> s)"
  proof (rule ccontr)
    assume "\<not> (length want \<noteq> 9 \<or> (\<exists>s\<in>set want. s < 0 \<or> 9 \<le> s))"
    then have "length want = 9" "\<forall>s\<in>set want. 0 \<le> s \<and> s < 9" by auto
    with assms have "set want = {0..8}" by (rule full_set_by_count)
    with ne show False by contradiction
  qed
  note v = encode_validation [OF bad, of env lib0 inp encoded]
  from v show "e_calls (encode env lib0 want inp encoded) = []" by blast
  from v show "e_encoded (encode env lib0 want inp encoded) = encoded" by blast
  from v show "e_ret (encode env lib0 want inp encoded) = Failure EINVAL \<or>
             e_ret (encode env lib0 want inp encoded) = Failure ENOENT" by blast
  from v show "e_ret (encode env lib0 want inp encoded) = Failure EINVAL \<longleftrightarrow>
               fst (load_sizeceph_actual_library env lib0)" by blast
next
  assume a: "length want = 9 \<and> (\<forall>s\<in>set want. 0 \<le> s \<and> s < 9)"
  with assms show "set want = {0..8}" by (intro full_set_by_count) simp_all
next
  assume a: "length want = 9 \<and> (\<forall>s\<in>set want. 0 \<le> s \<and> s < 9)"
    and l: "fst (load_sizeceph_actual_library env lib0)"
  then show "e_ret (encode env lib0 want inp encoded) = Failure EINVAL \<longleftrightarrow>
                  buf_length inp \<noteq> 0 \<and> buf_length inp mod 4 \<noteq> 0"
    by (intro encode_validated) simp_all
qed

theorem encode_requires_full_set_witness:
  "sorted_wrt (<) [0, 1, 2, 3, 4, 5, 6, 7 :: int] \<and>
   set [0, 1, 2, 3, 4, 5, 6, 7 :: int] \<noteq> {0..8} \<and>
   fst (load_sizeceph_actual_library counting_codec lib_unloaded) \<and>
   e_ret (encode counting_codec lib_unloaded [0, 1, 2, 3, 4, 5, 6, 7] [1, 2, 3, 4] Map.empty) =
     Failure EINVAL \<and>
   e_calls (encode counting_codec lib_unloaded [0, 1, 2, 3, 4, 5, 6, 7] [1, 2, 3, 4] Map.empty) = [] \<and>
   sorted_wrt (<) [0, 1, 2, 3, 4, 5, 6, 7, 8 :: int] \<and>
   length [0, 1, 2, 3, 4, 5, 6, 7, 8 :: int] = 9 \<and>
   set [0, 1, 2, 3, 4, 5, 6, 7, 8 :: int] = {0..8} \<and>
   e_ret (encode counting_codec lib_unloaded [0, 1, 2, 3, 4, 5, 6, 7, 8] [1, 2, 3, 4] Map.empty) \<noteq>
     Failure EINVAL"
proof -
  have s8: "sorted_wrt (<) [0, 1, 2, 3, 4, 5, 6, 7 :: int]" by simp
  have s9: "sorted_wrt (<) [0, 1, 2, 3, 4, 5, 6, 7, 8 :: int]" by simp
  have "(8::int) \<in> {0..8}" "(8::int) \<notin> set [0, 1, 2, 3, 4, 5, 6, 7 :: int]" by simp_all
  then have ne: "set [0, 1, 2, 3, 4, 5, 6, 7 :: int] \<noteq> {0..8}" by metis
  have l: "fst (load_sizeceph_actual_library counting_codec lib_unloaded)"
    by (simp add: load_sizeceph_actual_library_def fixture_defs)
  have r: "length [0, 1, 2, 3, 4, 5, 6, 7, 8 :: int] = 9 \<and>
           (\<forall>s\<in>set [0, 1, 2, 3, 4, 5, 6, 7, 8 :: int]. 0 \<le> s \<and> s < 9)" by simp
  have b: "\<not> (buf_length [1, 2, 3, 4] \<noteq> 0 \<and> buf_length [1, 2, 3, 4] mod 4 \<noteq> 0)"
    by (simp add: buf_length_def)
  from encode_requires_full_set [OF s8, of counting_codec lib_unloaded "[1, 2, 3, 4]" Map.empty]
       encode_requires_full_set [OF s9, of counting_codec lib_unloaded "[1, 2, 3, 4]" Map.empty]
       s8 s9 ne l r b
  show ?thesis by (simp only: simp_thms) blast
qed


section \<open>The effective chunk size\<close>

lemma decode_calls_restore:
  assumes "is_safe_to_decode (available_shards chunks) want"
    and "fst (load_sizeceph_actual_library env lib0)"
    and "effective_chunk_size chunks chunk_size \<noteq> 0"
    and "size_can_get_restore_fn env (const_input_chunks chunks) \<noteq> 0"
  shows "d_calls (decode env lib0 want chunks decoded chunk_size) =
           [Call_can_restore (const_input_chunks chunks),
            Call_restore (const_input_chunks chunks)
              (effective_chunk_size chunks chunk_size * 4)]"
  using assms
  by (auto simp: decode_def Let_def is_safe_to_decode_iff sizeceph_consts
           split: if_splits prod.splits bool.splits)

text \<open>
  C7: the effective chunk size is the declared one when that is positive and the length of
  a present chunk when it is not. The source stores the declared \<^verbatim>\<open>int\<close> into an
  \<^verbatim>\<open>unsigned int\<close> and then tests \<^verbatim>\<open>effective_chunk_size <= 0\<close>, which holds for 0 only. With
  six chunks of 4 bytes, a declared size of 8 is kept and a declared size of 0 gives the
  inferred 4, but a declared size of \<open>-1\<close> is kept as 4294967295 and \<^verbatim>\<open>size_restore\<close> is
  asked for 4294967292 bytes.
\<close>

theorem negative_chunk_size_is_kept:
  "effective_chunk_size chunks_six 8 = 8 \<and>
   effective_chunk_size chunks_six 0 = 4 \<and>
   buf_length (snd (hd chunks_six)) = 4 \<and>
   effective_chunk_size chunks_six (- 1) = 4294967295 \<and>
   d_calls (decode counting_codec lib_unloaded [0] chunks_six Map.empty (- 1)) =
     [Call_can_restore (const_input_chunks chunks_six),
      Call_restore (const_input_chunks chunks_six) 4294967292]"
proof -
  have e: "effective_chunk_size chunks_six (- 1) = 4294967295"
    by (simp add: effective_chunk_size_def)
  have gate: "is_safe_to_decode (available_shards chunks_six) [0]"
    by (simp add: is_safe_to_decode_iff available_shards_def fixture_defs)
  have l: "fst (load_sizeceph_actual_library counting_codec lib_unloaded)"
    by (simp add: load_sizeceph_actual_library_def fixture_defs)
  have c: "size_can_get_restore_fn counting_codec (const_input_chunks chunks_six) \<noteq> 0"
    by (simp add: counting_codec_def)
  have "d_calls (decode counting_codec lib_unloaded [0] chunks_six Map.empty (- 1)) =
     [Call_can_restore (const_input_chunks chunks_six),
      Call_restore (const_input_chunks chunks_six) (effective_chunk_size chunks_six (- 1) * 4)]"
    using gate l _ c by (rule decode_calls_restore) (simp add: e)
  then show ?thesis
    by (simp add: e) (simp add: effective_chunk_size_def buf_length_def fixture_defs)
qed

end
